theory Spec2Isabelle
  imports Complex_Main "HOL-Library.Multiset"
begin

section \<open>Data model\<close>

text \<open>
  The script \<^verbatim>\<open>validate_model.py\<close> reads one table and works on its columns. A row of
  the table is a record; a float column that may hold the missing marker (NaN) is a
  \<open>real option\<close>, with \<open>None\<close> for NaN. The outcome flag \<open>conflict_occurred\<close> is binary
  (0/1), so it is a \<open>bool\<close>. The priority class is an integer code that may be missing.
  Finite floats are modelled by exact reals: rounding is outside this model.
\<close>

record sample =
  ewi :: "real option"
  cattle_convergence :: "real option"
  conflict_risk :: "real option"
  resource_stress :: "real option"
  access_constraints :: "real option"
  water_score :: "real option"
  forage_score :: "real option"
  conflict_occurred :: bool
  priority_class :: "int option"

type_synonym dataset = "sample list"

section \<open>Loading: filling missing EWI values (lines 31--45)\<close>

definition component_cols_for_ewi :: "(sample \<Rightarrow> real option) list" where
  "component_cols_for_ewi =
     [cattle_convergence, conflict_risk, resource_stress,
      access_constraints, water_score, forage_score]"

text \<open>The values of a list of cells that are not NaN, in order.\<close>

fun present_values :: "real option list \<Rightarrow> real list" where
  "present_values [] = []"
| "present_values (None # xs) = present_values xs"
| "present_values (Some v # xs) = v # present_values xs"

text \<open>
  pandas \<^verbatim>\<open>mean(skipna=True)\<close> of a list of cells: the sum of the cells that are not NaN
  over their number, and NaN when there is none.
\<close>

definition nanmean :: "real option list \<Rightarrow> real option" where
  "nanmean xs =
     (let ps = present_values xs
      in if ps = [] then None else Some (sum_list ps / real (length ps)))"

text \<open>\<^verbatim>\<open>df[component_cols_for_ewi].mean(axis=1, skipna=True)\<close>, at one row.\<close>

definition row_mean :: "sample \<Rightarrow> real option" where
  "row_mean r = nanmean (map (\<lambda>c. c r) component_cols_for_ewi)"

text \<open>\<^verbatim>\<open>s.fillna(t)\<close> at one cell: a NaN cell takes the cell of \<open>t\<close>, any other is kept.\<close>

definition fillna :: "real option \<Rightarrow> real option \<Rightarrow> real option" where
  "fillna cell other = (case cell of None \<Rightarrow> other | Some v \<Rightarrow> Some v)"

definition missing_ewi :: "dataset \<Rightarrow> nat" where
  "missing_ewi df = length (filter (\<lambda>r. ewi r = None) df)"

definition load_impute :: "dataset \<Rightarrow> dataset" where
  "load_impute df =
     (if missing_ewi df > 0
      then map (\<lambda>r. r\<lparr>ewi := fillna (ewi r) (row_mean r)\<rparr>) df
      else df)"

text \<open>The count the script prints: how many of the missing values were filled.\<close>

definition filled_ewi :: "dataset \<Rightarrow> nat" where
  "filled_ewi df = missing_ewi df - missing_ewi (load_impute df)"

section \<open>numpy floats\<close>

text \<open>
  A computed float is NaN, a finite number or an infinity. Arithmetic follows IEEE 754
  on the special values and is exact on finite ones (signed zeros are not modelled: every
  zero below comes from a count). A comparison with NaN is false.
\<close>

datatype npfloat = NaN | Fin real | PInf | NInf

definition of_cell :: "real option \<Rightarrow> npfloat" where
  "of_cell c = (case c of None \<Rightarrow> NaN | Some v \<Rightarrow> Fin v)"

fun np_sgn :: "npfloat \<Rightarrow> real" where
  "np_sgn NaN = 0"
| "np_sgn (Fin a) = sgn a"
| "np_sgn PInf = 1"
| "np_sgn NInf = - 1"

definition signed_inf :: "real \<Rightarrow> npfloat" where
  "signed_inf s = (if s > 0 then PInf else if s < 0 then NInf else NaN)"

fun np_neg :: "npfloat \<Rightarrow> npfloat" where
  "np_neg NaN = NaN"
| "np_neg (Fin a) = Fin (- a)"
| "np_neg PInf = NInf"
| "np_neg NInf = PInf"

fun np_add :: "npfloat \<Rightarrow> npfloat \<Rightarrow> npfloat" where
  "np_add (Fin a) (Fin b) = Fin (a + b)"
| "np_add NaN _ = NaN"
| "np_add _ NaN = NaN"
| "np_add PInf NInf = NaN"
| "np_add NInf PInf = NaN"
| "np_add PInf _ = PInf"
| "np_add _ PInf = PInf"
| "np_add NInf _ = NInf"
| "np_add _ NInf = NInf"

definition np_sub :: "npfloat \<Rightarrow> npfloat \<Rightarrow> npfloat" where
  "np_sub x y = np_add x (np_neg y)"

fun np_mul :: "npfloat \<Rightarrow> npfloat \<Rightarrow> npfloat" where
  "np_mul (Fin a) (Fin b) = Fin (a * b)"
| "np_mul NaN _ = NaN"
| "np_mul _ NaN = NaN"
| "np_mul x y = signed_inf (np_sgn x * np_sgn y)"

fun np_div :: "npfloat \<Rightarrow> npfloat \<Rightarrow> npfloat" where
  "np_div (Fin a) (Fin b) = (if b = 0 then signed_inf a else Fin (a / b))"
| "np_div NaN _ = NaN"
| "np_div _ NaN = NaN"
| "np_div (Fin a) _ = Fin 0"
| "np_div x (Fin b) = (if b < 0 then np_neg x else x)"
| "np_div _ _ = NaN"

fun np_lt :: "npfloat \<Rightarrow> npfloat \<Rightarrow> bool" where
  "np_lt (Fin a) (Fin b) = (a < b)"
| "np_lt NaN _ = False"
| "np_lt _ NaN = False"
| "np_lt NInf y = (y \<noteq> NInf)"
| "np_lt x PInf = (x \<noteq> PInf)"
| "np_lt _ _ = False"

definition np_gt :: "npfloat \<Rightarrow> npfloat \<Rightarrow> bool" where
  "np_gt x y = np_lt y x"

definition np_ge :: "npfloat \<Rightarrow> npfloat \<Rightarrow> bool" where
  "np_ge x y = (x \<noteq> NaN \<and> y \<noteq> NaN \<and> (x = y \<or> np_lt y x))"

text \<open>The quotient of two integer counts, \<^verbatim>\<open>a / b\<close> on numpy integers: never an
  exception; \<open>0 / 0\<close> is NaN.\<close>

definition count_div :: "nat \<Rightarrow> nat \<Rightarrow> npfloat" where
  "count_div a b = np_div (Fin (real a)) (Fin (real b))"

section \<open>The library routines the script calls\<close>

text \<open>
  The script calls scikit-learn's \<^verbatim>\<open>roc_auc_score\<close>, \<^verbatim>\<open>roc_curve\<close> and
  \<^verbatim>\<open>confusion_matrix\<close>, and numpy's \<^verbatim>\<open>argmax\<close>. They are modelled by what they
  compute and by the inputs they reject. An exception is a value of \<open>error\<close>; the script
  catches none, so an error ends the run.
\<close>

datatype error =
    Input_contains_NaN  \<comment> \<open>ValueError: the scores hold NaN\<close>
  | Only_one_class      \<comment> \<open>ValueError: only one class present in the outcomes\<close>
  | Empty_input         \<comment> \<open>ValueError: no rows\<close>
  | Unpack_mismatch     \<comment> \<open>ValueError: the confusion matrix has not four entries to unpack\<close>
  | Index_out_of_range  \<comment> \<open>IndexError\<close>

text \<open>
  What \<^verbatim>\<open>roc_auc_score\<close> does when the outcomes hold one class only differs between
  releases of the library: releases up to 1.5 raise a ValueError, later ones warn and
  return NaN. The script pins no release, so this is a parameter of the model.
\<close>

datatype one_class_policy = Raise_error | Return_nan

subsection \<open>The points of the ROC curve\<close>

text \<open>The distinct scores, highest first: the candidate thresholds.\<close>

definition thresholds_desc :: "real list \<Rightarrow> real list" where
  "thresholds_desc ss = rev (sort (remdups ss))"

text \<open>The number of rows of class \<open>cls\<close> whose score is at least \<open>t\<close>.\<close>

definition count_ge :: "bool \<Rightarrow> bool list \<Rightarrow> real list \<Rightarrow> real \<Rightarrow> nat" where
  "count_ge cls ys ss t = length (filter (\<lambda>(y, s). y = cls \<and> s \<ge> t) (zip ys ss))"

text \<open>
  \<^verbatim>\<open>_binary_clf_curve\<close>: for each distinct score \<open>t\<close>, highest first, the triple of the
  number of negatives with a score \<open>\<ge> t\<close> (false positives), the number of positives
  with a score \<open>\<ge> t\<close> (true positives), and \<open>t\<close>.
\<close>

definition binary_clf_curve :: "bool list \<Rightarrow> real list \<Rightarrow> (nat \<times> nat \<times> real) list" where
  "binary_clf_curve ys ss =
     map (\<lambda>t. (count_ge False ys ss t, count_ge True ys ss t, t)) (thresholds_desc ss)"

text \<open>
  \<^verbatim>\<open>drop_intermediate=True\<close> (the default): when there are more than two points, an
  inner point is kept only if the second difference of the false positive counts or of
  the true positive counts is not zero there; the first and the last point are kept.
\<close>

definition second_diff :: "nat \<Rightarrow> nat \<Rightarrow> nat \<Rightarrow> int" where
  "second_diff a b c = int c - 2 * int b + int a"

definition is_corner :: "nat \<times> nat \<times> real \<Rightarrow> nat \<times> nat \<times> real \<Rightarrow> nat \<times> nat \<times> real \<Rightarrow> bool" where
  "is_corner p q r =
     (second_diff (fst p) (fst q) (fst r) \<noteq> 0
      \<or> second_diff (fst (snd p)) (fst (snd q)) (fst (snd r)) \<noteq> 0)"

fun keep_corners :: "nat \<times> nat \<times> real \<Rightarrow> (nat \<times> nat \<times> real) list \<Rightarrow> (nat \<times> nat \<times> real) list" where
  "keep_corners p [] = []"
| "keep_corners p [q] = [q]"
| "keep_corners p (q # r # rs) =
     (if is_corner p q r then q # keep_corners q (r # rs) else keep_corners q (r # rs))"

definition drop_intermediate :: "(nat \<times> nat \<times> real) list \<Rightarrow> (nat \<times> nat \<times> real) list" where
  "drop_intermediate pts =
     (case pts of
        p # q # r # rs \<Rightarrow> p # keep_corners p (q # r # rs)
      | _ \<Rightarrow> pts)"

text \<open>The counts of the curve as \<^verbatim>\<open>roc_curve\<close> holds them: the point \<open>(0, 0)\<close> with the
  threshold \<open>inf\<close> is put in front. (Releases before 1.3 put the highest score plus one
  there; no score reaches either, so the classification at it is the same.)\<close>

definition roc_counts :: "bool list \<Rightarrow> real list \<Rightarrow> (nat \<times> nat \<times> npfloat) list" where
  "roc_counts ys ss =
     (0, 0, PInf) # map (\<lambda>(f, t, s). (f, t, Fin s)) (drop_intermediate (binary_clf_curve ys ss))"

text \<open>\<^verbatim>\<open>fps / fps[-1]\<close>: the counts over the last count.\<close>

definition rates :: "nat list \<Rightarrow> real list" where
  "rates cs = map (\<lambda>c. real c / real (last cs)) cs"

text \<open>When the last count is zero (no row of that class) the library warns and returns
  an array of NaN.\<close>

definition np_rates :: "nat list \<Rightarrow> npfloat list" where
  "np_rates cs = (if last cs = 0 then replicate (length cs) NaN else map Fin (rates cs))"

definition roc_curve ::
  "bool list \<Rightarrow> real option list \<Rightarrow> error + (npfloat list \<times> npfloat list \<times> npfloat list)" where
  "roc_curve y_true y_score =
     (if y_true = [] then Inl Empty_input
      else if None \<in> set y_score then Inl Input_contains_NaN
      else let pts = roc_counts y_true (present_values y_score)
           in Inr (np_rates (map fst pts), np_rates (map (\<lambda>p. fst (snd p)) pts),
                   map (\<lambda>p. snd (snd p)) pts))"

subsection \<open>The area under the curve\<close>

text \<open>\<^verbatim>\<open>np.trapz\<close> over the points \<open>(x, y)\<close> of a curve.\<close>

fun trapz :: "(real \<times> real) list \<Rightarrow> real" where
  "trapz (p # q # ps) = (fst q - fst p) * (snd q + snd p) / 2 + trapz (q # ps)"
| "trapz _ = 0"

definition roc_auc_score ::
  "one_class_policy \<Rightarrow> bool list \<Rightarrow> real option list \<Rightarrow> error + npfloat" where
  "roc_auc_score policy y_true y_score =
     (if y_true = [] then Inl Empty_input
      else if None \<in> set y_score then Inl Input_contains_NaN
      else if \<not> (True \<in> set y_true \<and> False \<in> set y_true)
        then (case policy of Raise_error \<Rightarrow> Inl Only_one_class | Return_nan \<Rightarrow> Inr NaN)
      else let pts = roc_counts y_true (present_values y_score)
           in Inr (Fin (trapz (zip (rates (map fst pts)) (rates (map (\<lambda>p. fst (snd p)) pts))))))"

subsection \<open>The confusion matrix\<close>

definition count_where :: "(bool \<Rightarrow> bool \<Rightarrow> bool) \<Rightarrow> bool list \<Rightarrow> bool list \<Rightarrow> nat" where
  "count_where P ys ps = length (filter (\<lambda>(y, p). P y p) (zip ys ps))"

text \<open>
  \<^verbatim>\<open>tn, fp, fn, tp = confusion_matrix(y_true, y_pred).ravel()\<close>. The matrix has one row
  and one column per label that occurs in the outcomes or in the predictions. With both
  labels it has the four entries; with one label it has one entry, with no row it has
  none, and the unpacking raises.
\<close>

definition confusion4 :: "bool list \<Rightarrow> bool list \<Rightarrow> error + (nat \<times> nat \<times> nat \<times> nat)" where
  "confusion4 y_true y_pred =
     (if True \<in> set y_true \<union> set y_pred \<and> False \<in> set y_true \<union> set y_pred
      then Inr (count_where (\<lambda>y p. \<not> y \<and> \<not> p) y_true y_pred,
                count_where (\<lambda>y p. \<not> y \<and> p) y_true y_pred,
                count_where (\<lambda>y p. y \<and> \<not> p) y_true y_pred,
                count_where (\<lambda>y p. y \<and> p) y_true y_pred)
      else Inl Unpack_mismatch)"

subsection \<open>argmax\<close>

text \<open>
  \<^verbatim>\<open>np.argmax\<close>: the index of the first occurrence of the greatest value; a NaN counts
  as greater than every number, so the first NaN wins. An empty array raises.
\<close>

definition beats :: "npfloat \<Rightarrow> npfloat \<Rightarrow> bool" where
  "beats x best = (best \<noteq> NaN \<and> (x = NaN \<or> np_gt x best))"

fun argmax_scan :: "npfloat \<Rightarrow> nat \<Rightarrow> nat \<Rightarrow> npfloat list \<Rightarrow> nat" where
  "argmax_scan best bi i [] = bi"
| "argmax_scan best bi i (x # xs) =
     (if beats x best then argmax_scan x i (Suc i) xs else argmax_scan best bi (Suc i) xs)"

definition np_argmax :: "npfloat list \<Rightarrow> error + nat" where
  "np_argmax xs = (case xs of [] \<Rightarrow> Inl Empty_input | x # rest \<Rightarrow> Inr (argmax_scan x 0 1 rest))"

subsection \<open>Python's sort\<close>

text \<open>
  \<^verbatim>\<open>sorted\<close> compares with \<^verbatim>\<open><\<close> only. CPython's list sort (as of releases 3.11 and
  3.12) finds the run the list starts with (not descending, or strictly descending and
  then reversed) and, for a list of fewer than 64 values, inserts each later value into
  the sorted front by binary search.
  Longer lists are cut into such runs, which are merged; on values that \<^verbatim>\<open><\<close> orders
  totally every such sort gives the ascending list. With NaN among the values \<^verbatim>\<open><\<close> is
  no total order, and the result is what the comparisons make of it.
\<close>

fun run_asc :: "('a \<Rightarrow> 'a \<Rightarrow> bool) \<Rightarrow> 'a \<Rightarrow> 'a list \<Rightarrow> nat" where
  "run_asc lt prev [] = 0"
| "run_asc lt prev (x # xs) = (if lt x prev then 0 else Suc (run_asc lt x xs))"

fun run_desc :: "('a \<Rightarrow> 'a \<Rightarrow> bool) \<Rightarrow> 'a \<Rightarrow> 'a list \<Rightarrow> nat" where
  "run_desc lt prev [] = 0"
| "run_desc lt prev (x # xs) = (if lt x prev then Suc (run_desc lt x xs) else 0)"

text \<open>\<^verbatim>\<open>count_run\<close>: the length of the first run, and whether it is descending.\<close>

fun count_run :: "('a \<Rightarrow> 'a \<Rightarrow> bool) \<Rightarrow> 'a list \<Rightarrow> nat \<times> bool" where
  "count_run lt [] = (0, False)"
| "count_run lt [x] = (1, False)"
| "count_run lt (x # y # ys) =
     (if lt y x then (2 + run_desc lt y ys, True) else (2 + run_asc lt y ys, False))"

text \<open>The binary search of \<^verbatim>\<open>binarysort\<close>: where \<open>pivot\<close> goes in \<open>xs\<close> between \<open>l\<close>
  and \<open>r\<close>.\<close>

function bisect :: "('a \<Rightarrow> 'a \<Rightarrow> bool) \<Rightarrow> 'a \<Rightarrow> 'a list \<Rightarrow> nat \<Rightarrow> nat \<Rightarrow> nat" where
  "bisect lt pivot xs l r =
     (if l < r
      then (let p = l + (r - l) div 2
            in if lt pivot (xs ! p) then bisect lt pivot xs l p
               else bisect lt pivot xs (Suc p) r)
      else l)"
  by pat_completeness auto
termination
  by (relation "measure (\<lambda>(lt, pivot, xs, l, r). r - l)") auto

declare bisect.simps [simp del]

definition binary_insert :: "('a \<Rightarrow> 'a \<Rightarrow> bool) \<Rightarrow> 'a \<Rightarrow> 'a list \<Rightarrow> 'a list" where
  "binary_insert lt pivot xs =
     (let k = bisect lt pivot xs 0 (length xs) in take k xs @ pivot # drop k xs)"

fun binarysort :: "('a \<Rightarrow> 'a \<Rightarrow> bool) \<Rightarrow> 'a list \<Rightarrow> 'a list \<Rightarrow> 'a list" where
  "binarysort lt front [] = front"
| "binarysort lt front (x # xs) = binarysort lt (binary_insert lt x front) xs"

definition py_sorted :: "('a \<Rightarrow> 'a \<Rightarrow> bool) \<Rightarrow> 'a list \<Rightarrow> 'a list" where
  "py_sorted lt xs =
     (case count_run lt xs of
        (n, descending) \<Rightarrow>
          binarysort lt (if descending then rev (take n xs) else take n xs) (drop n xs))"

section \<open>1. Performance of the composite score (lines 59--100)\<close>

text \<open>Running a loop body over a list of values; the first exception ends the loop.\<close>

fun for_each :: "('a \<Rightarrow> error + 'b) \<Rightarrow> 'a list \<Rightarrow> error + 'b list" where
  "for_each f [] = Inr []"
| "for_each f (x # xs) =
     (case f x of
        Inl e \<Rightarrow> Inl e
      | Inr y \<Rightarrow> (case for_each f xs of Inl e \<Rightarrow> Inl e | Inr ys \<Rightarrow> Inr (y # ys)))"

text \<open>The printed reading of the AUC (lines 63--70).\<close>

definition auc_label :: "npfloat \<Rightarrow> string" where
  "auc_label auc =
     (if np_gt auc (Fin 0.8) then ''EXCELLENT''
      else if np_gt auc (Fin 0.7) then ''GOOD''
      else if np_gt auc (Fin 0.6) then ''FAIR''
      else ''POOR'')"

text \<open>\<^verbatim>\<open>(df['ewi'] >= threshold).astype(int)\<close>: a row is predicted positive when its
  score is at least the threshold; a NaN score is not.\<close>

definition predict :: "npfloat \<Rightarrow> dataset \<Rightarrow> bool list" where
  "predict threshold df = map (\<lambda>r. np_ge (of_cell (ewi r)) threshold) df"

record sweep_row =
  sw_threshold :: real
  sw_tn :: nat
  sw_fp :: nat
  sw_fn :: nat
  sw_tp :: nat
  sw_precision :: npfloat
  sw_recall :: npfloat
  sw_f1 :: npfloat
  sw_accuracy :: npfloat

text \<open>The body of the loop over the thresholds (lines 80--87).\<close>

definition sweep_at :: "dataset \<Rightarrow> real \<Rightarrow> error + sweep_row" where
  "sweep_at df threshold =
     (case confusion4 (map conflict_occurred df) (predict (Fin threshold) df) of
        Inl e \<Rightarrow> Inl e
      | Inr (tn, fp, fn, tp) \<Rightarrow>
          let precision = (if tp + fp > 0 then count_div tp (tp + fp) else Fin 0);
              recall = (if tp + fn > 0 then count_div tp (tp + fn) else Fin 0);
              f1 = (if np_gt (np_add precision recall) (Fin 0)
                    then np_div (np_mul (Fin 2) (np_mul precision recall))
                           (np_add precision recall)
                    else Fin 0);
              accuracy = count_div (tp + tn) (tp + tn + fp + fn)
          in Inr \<lparr>sw_threshold = threshold, sw_tn = tn, sw_fp = fp, sw_fn = fn, sw_tp = tp,
                  sw_precision = precision, sw_recall = recall, sw_f1 = f1,
                  sw_accuracy = accuracy\<rparr>)"

definition sweep_thresholds :: "real list" where
  "sweep_thresholds = [0.4, 0.5, 0.6, 0.7]"

definition threshold_sweep :: "dataset \<Rightarrow> error + sweep_row list" where
  "threshold_sweep df = for_each (sweep_at df) sweep_thresholds"

text \<open>Youden's J along the curve, \<^verbatim>\<open>tpr - fpr\<close>.\<close>

definition youden :: "npfloat list \<Rightarrow> npfloat list \<Rightarrow> npfloat list" where
  "youden fpr tpr = map (\<lambda>(t, f). np_sub t f) (zip tpr fpr)"

text \<open>Lines 97--99, on the arrays of the curve.\<close>

definition select_threshold ::
  "npfloat list \<times> npfloat list \<times> npfloat list \<Rightarrow> error + npfloat" where
  "select_threshold curve =
     (case curve of
        (fpr, tpr, thresholds) \<Rightarrow>
          (case np_argmax (youden fpr tpr) of
             Inl e \<Rightarrow> Inl e
           | Inr optimal_idx \<Rightarrow>
               if optimal_idx < length thresholds then Inr (thresholds ! optimal_idx)
               else Inl Index_out_of_range))"

definition optimal_threshold :: "dataset \<Rightarrow> error + npfloat" where
  "optimal_threshold df =
     (case roc_curve (map conflict_occurred df) (map ewi df) of
        Inl e \<Rightarrow> Inl e
      | Inr curve \<Rightarrow> select_threshold curve)"

section \<open>2. Component analysis (lines 110--125)\<close>

definition components :: "(string \<times> (sample \<Rightarrow> real option)) list" where
  "components =
     [(''Cattle Convergence'', cattle_convergence),
      (''Conflict Risk'', conflict_risk),
      (''Resource Stress'', resource_stress),
      (''Water Score'', water_score),
      (''Forage Score'', forage_score)]"

record component_row =
  c_name :: string
  c_auc :: npfloat
  c_mean_conflict :: "real option"
  c_mean_no_conflict :: "real option"

definition component_at ::
  "one_class_policy \<Rightarrow> dataset \<Rightarrow> string \<times> (sample \<Rightarrow> real option) \<Rightarrow> error + component_row" where
  "component_at policy df nc =
     (case nc of
        (name, col) \<Rightarrow>
          (case roc_auc_score policy (map conflict_occurred df) (map col df) of
             Inl e \<Rightarrow> Inl e
           | Inr auc_comp \<Rightarrow>
               Inr \<lparr>c_name = name, c_auc = auc_comp,
                    c_mean_conflict = nanmean (map col (filter (\<lambda>r. conflict_occurred r) df)),
                    c_mean_no_conflict =
                      nanmean (map col (filter (\<lambda>r. \<not> conflict_occurred r) df))\<rparr>))"

definition component_analysis :: "one_class_policy \<Rightarrow> dataset \<Rightarrow> error + component_row list" where
  "component_analysis policy df = for_each (component_at policy df) components"

section \<open>3. Priority zones (lines 135--147)\<close>

text \<open>\<^verbatim>\<open>priority_map.get(int(priority), 'Unknown')\<close>.\<close>

definition priority_label :: "int \<Rightarrow> string" where
  "priority_label p =
     (if p = 1 then ''CRITICAL'' else if p = 2 then ''HIGH ALERT''
      else if p = 3 then ''WATCH'' else if p = 4 then ''STABLE'' else ''Unknown'')"

text \<open>pandas \<^verbatim>\<open>unique\<close>: the distinct values in the order of their first appearance; NaN
  is one value.\<close>

definition unique :: "'a list \<Rightarrow> 'a list" where
  "unique xs = fold (\<lambda>x acc. if x \<in> set acc then acc else acc @ [x]) xs []"

text \<open>\<^verbatim>\<open><\<close> on priority values: false when either side is NaN.\<close>

definition prio_lt :: "int option \<Rightarrow> int option \<Rightarrow> bool" where
  "prio_lt a b = (case a of None \<Rightarrow> False | Some x \<Rightarrow> (case b of None \<Rightarrow> False | Some y \<Rightarrow> x < y))"

text \<open>The values the loop prints a line for, in the order of the loop: the sorted
  distinct values, without 0 and NaN.\<close>

definition zone_priorities :: "dataset \<Rightarrow> int list" where
  "zone_priorities df =
     concat (map (\<lambda>p. case p of None \<Rightarrow> [] | Some v \<Rightarrow> if v = 0 then [] else [v])
                 (py_sorted prio_lt (unique (map priority_class df))))"

text \<open>What the loop keeps of one value: nothing of NaN and of 0.\<close>

definition shown_priority :: "int option \<Rightarrow> int list" where
  "shown_priority p = (case p of None \<Rightarrow> [] | Some v \<Rightarrow> if v = 0 then [] else [v])"

record zone_row =
  z_label :: string
  z_total :: nat
  z_conflicts :: nat
  z_pct :: npfloat

definition zone_at :: "dataset \<Rightarrow> int \<Rightarrow> zone_row" where
  "zone_at df priority =
     (let subset = filter (\<lambda>r. priority_class r = Some priority) df;
          conflicts = length (filter (\<lambda>r. conflict_occurred r) subset);
          pct = (if length subset > 0
                 then np_mul (count_div conflicts (length subset)) (Fin 100) else Fin 0)
      in \<lparr>z_label = priority_label priority, z_total = length subset,
          z_conflicts = conflicts, z_pct = pct\<rparr>)"

definition zone_validation :: "dataset \<Rightarrow> zone_row list" where
  "zone_validation df = map (zone_at df) (zone_priorities df)"

section \<open>5. Summary and verdict (lines 211--251)\<close>

record summary =
  s_tn :: nat
  s_fp :: nat
  s_fn :: nat
  s_tp :: nat
  s_precision :: npfloat
  s_recall :: npfloat
  s_f1 :: npfloat

text \<open>Lines 211--216: the metrics at the optimal threshold, computed without the guards
  of the sweep.\<close>

definition summary_at :: "npfloat \<Rightarrow> dataset \<Rightarrow> error + summary" where
  "summary_at threshold df =
     (case confusion4 (map conflict_occurred df) (predict threshold df) of
        Inl e \<Rightarrow> Inl e
      | Inr (tn, fp, fn, tp) \<Rightarrow>
          let precision = count_div tp (tp + fp);
              recall = count_div tp (tp + fn);
              f1 = np_div (np_mul (Fin 2) (np_mul precision recall)) (np_add precision recall)
          in Inr \<lparr>s_tn = tn, s_fp = fp, s_fn = fn, s_tp = tp,
                  s_precision = precision, s_recall = recall, s_f1 = f1\<rparr>)"

datatype verdict = DEPLOY | PILOT | IMPROVE

definition final_verdict :: "npfloat \<Rightarrow> npfloat \<Rightarrow> verdict" where
  "final_verdict auc recall =
     (if np_gt auc (Fin 0.75) \<and> np_gt recall (Fin 0.7) then DEPLOY
      else if np_gt auc (Fin 0.65) then PILOT
      else IMPROVE)"

section \<open>The whole run\<close>

text \<open>
  What the script computes from the table it read, in the order of the script. The
  plots of section 4 (lines 157--201) draw values computed before; drawing and saving
  them is not part of the model.
\<close>

record report =
  r_auc :: npfloat
  r_sweep :: "sweep_row list"
  r_optimal_threshold :: npfloat
  r_components :: "component_row list"
  r_zones :: "zone_row list"
  r_summary :: summary
  r_verdict :: verdict

definition run :: "one_class_policy \<Rightarrow> dataset \<Rightarrow> error + report" where
  "run policy csv =
     (let df = load_impute csv
      in case roc_auc_score policy (map conflict_occurred df) (map ewi df) of
           Inl e \<Rightarrow> Inl e
         | Inr auc \<Rightarrow>
        (case threshold_sweep df of
           Inl e \<Rightarrow> Inl e
         | Inr sweep \<Rightarrow>
        (case optimal_threshold df of
           Inl e \<Rightarrow> Inl e
         | Inr threshold \<Rightarrow>
        (case component_analysis policy df of
           Inl e \<Rightarrow> Inl e
         | Inr comps \<Rightarrow>
        (case summary_at threshold df of
           Inl e \<Rightarrow> Inl e
         | Inr sm \<Rightarrow>
             Inr \<lparr>r_auc = auc, r_sweep = sweep, r_optimal_threshold = threshold,
                  r_components = comps, r_zones = zone_validation df, r_summary = sm,
                  r_verdict = final_verdict auc (s_recall sm)\<rparr>)))))"

section \<open>The stated metrics\<close>

text \<open>
  The threshold sweep as the specification words it, to compare the loop body with: a
  row counts as positive at \<open>t\<close> when it has a score and the score is at least \<open>t\<close>;
  the four counts are the numbers of rows by outcome and by that classification;
  precision is \<open>TP / (TP + FP)\<close>, recall is \<open>TP / (TP + FN)\<close>, each 0 when its denominator
  is 0; F1 is \<open>2 P R / (P + R)\<close>, 0 when \<open>P + R = 0\<close>; accuracy is \<open>(TP + TN) / N\<close>.
\<close>

definition scored_at_least :: "sample \<Rightarrow> real \<Rightarrow> bool" where
  "scored_at_least r t = (case ewi r of None \<Rightarrow> False | Some v \<Rightarrow> t \<le> v)"

definition stated_metrics :: "dataset \<Rightarrow> real \<Rightarrow> sweep_row" where
  "stated_metrics df t =
     (let tn = length (filter (\<lambda>r. \<not> conflict_occurred r \<and> \<not> scored_at_least r t) df);
          fp = length (filter (\<lambda>r. \<not> conflict_occurred r \<and> scored_at_least r t) df);
          fn = length (filter (\<lambda>r. conflict_occurred r \<and> \<not> scored_at_least r t) df);
          tp = length (filter (\<lambda>r. conflict_occurred r \<and> scored_at_least r t) df);
          p = (if tp + fp = 0 then 0 else real tp / real (tp + fp));
          rc = (if tp + fn = 0 then 0 else real tp / real (tp + fn))
      in \<lparr>sw_threshold = t, sw_tn = tn, sw_fp = fp, sw_fn = fn, sw_tp = tp,
          sw_precision = Fin p, sw_recall = Fin rc,
          sw_f1 = Fin (if p + rc = 0 then 0 else 2 * (p * rc) / (p + rc)),
          sw_accuracy = Fin (real (tp + tn) / real (length df))\<rparr>)"

section \<open>Example tables\<close>

text \<open>A row with every cell missing, outcome 0 and no priority class; the examples
  set the cells they need.\<close>

definition blank :: sample where
  "blank = \<lparr>ewi = None, cattle_convergence = None, conflict_risk = None,
      resource_stress = None, access_constraints = None, water_score = None,
      forage_score = None, conflict_occurred = False, priority_class = None\<rparr>"

text \<open>Three rows: one with a missing EWI and two components present, one with nothing
  present at all, one with an EWI of its own.\<close>

definition ex_missing :: dataset where
  "ex_missing =
     [blank\<lparr>cattle_convergence := Some 0.2, resource_stress := Some 0.4,
            conflict_occurred := True, priority_class := Some 1\<rparr>,
      blank\<lparr>conflict_occurred := True, priority_class := Some 2\<rparr>,
      blank\<lparr>ewi := Some 0.6, water_score := Some 0.9, priority_class := Some 2\<rparr>]"

text \<open>The scenario of the specification: scores 0.6 and 0.4, outcomes 1 and 0.\<close>

definition ex_two :: dataset where
  "ex_two = [blank\<lparr>ewi := Some 0.6, conflict_occurred := True\<rparr>, blank\<lparr>ewi := Some 0.4\<rparr>]"

text \<open>The lines of the sweep on this scenario.\<close>

definition ex_two_sweep :: "sweep_row list" where
  "ex_two_sweep =
     [\<lparr>sw_threshold = 0.4, sw_tn = 0, sw_fp = 1, sw_fn = 0, sw_tp = 1,
       sw_precision = Fin (1 / 2), sw_recall = Fin 1, sw_f1 = Fin (2 / 3),
       sw_accuracy = Fin (1 / 2)\<rparr>,
      \<lparr>sw_threshold = 0.5, sw_tn = 1, sw_fp = 0, sw_fn = 0, sw_tp = 1,
       sw_precision = Fin 1, sw_recall = Fin 1, sw_f1 = Fin 1, sw_accuracy = Fin 1\<rparr>,
      \<lparr>sw_threshold = 0.6, sw_tn = 1, sw_fp = 0, sw_fn = 0, sw_tp = 1,
       sw_precision = Fin 1, sw_recall = Fin 1, sw_f1 = Fin 1, sw_accuracy = Fin 1\<rparr>,
      \<lparr>sw_threshold = 0.7, sw_tn = 1, sw_fp = 0, sw_fn = 1, sw_tp = 0,
       sw_precision = Fin 0, sw_recall = Fin 0, sw_f1 = Fin 0,
       sw_accuracy = Fin (1 / 2)\<rparr>]"

text \<open>A table with every component but \<open>access_constraints\<close> present. The first
  scenario of the specification: scores 0.9, 0.8, 0.3, 0.2 and outcomes 1, 1, 0, 0.\<close>

definition full :: "real \<Rightarrow> bool \<Rightarrow> int option \<Rightarrow> sample" where
  "full e c p = \<lparr>ewi = Some e, cattle_convergence = Some e, conflict_risk = Some 0.5,
      resource_stress = Some 0.5, access_constraints = None, water_score = Some (1 - e),
      forage_score = Some 0.5, conflict_occurred = c, priority_class = p\<rparr>"

definition ex_four :: dataset where
  "ex_four = [full 0.9 True (Some 1), full 0.8 True (Some 1),
              full 0.3 False (Some 2), full 0.2 False (Some 4)]"

text \<open>A table on which the score ranks the rows the wrong way round.\<close>

definition ex_inverted :: dataset where
  "ex_inverted = [full 0.2 True (Some 1), full 0.6 False (Some 2)]"

text \<open>A table whose priority class column holds a missing value between a 3 and
  a 1.\<close>

definition ex_zones :: dataset where
  "ex_zones = [full 0.9 True (Some 3), full 0.5 False None, full 0.1 False (Some 1)]"


section \<open>Imputation\<close>

lemma missing_ewi_pos: "r \<in> set df \<Longrightarrow> ewi r = None \<Longrightarrow> missing_ewi df > 0"
  by (auto simp: missing_ewi_def filter_empty_conv)

lemma missing_ewi_zero: "missing_ewi df = 0 \<Longrightarrow> r \<in> set df \<Longrightarrow> ewi r \<noteq> None"
  by (auto simp: missing_ewi_def filter_empty_conv)

lemma length_load_impute: "length (load_impute df) = length df"
  by (simp add: load_impute_def)

lemma load_impute_nth:
  "i < length df \<Longrightarrow>
   load_impute df ! i = (df ! i)\<lparr>ewi := fillna (ewi (df ! i)) (row_mean (df ! i))\<rparr>"
proof (cases "missing_ewi df > 0")
  case True
  assume "i < length df"
  with True show ?thesis by (simp add: load_impute_def)
next
  case False
  assume i: "i < length df"
  from False have "missing_ewi df = 0" by simp
  with i have "ewi (df ! i) \<noteq> None"
    using missing_ewi_zero [of df "df ! i"] by simp
  then obtain v where "ewi (df ! i) = Some v" by auto
  with False show ?thesis by (simp add: load_impute_def fillna_def)
qed



text \<open>
  C9. The loading step removes no row, leaves the six component columns, the outcome
  column and the priority class column as they are, and leaves every composite score
  that is present as it is: a row of the result is the row of the input with, at most,
  its missing composite score written.
\<close>

theorem load_impute_frame:
  "length (load_impute df) = length df
   \<and> (\<forall>i < length df.
        cattle_convergence (load_impute df ! i) = cattle_convergence (df ! i)
      \<and> conflict_risk (load_impute df ! i) = conflict_risk (df ! i)
      \<and> resource_stress (load_impute df ! i) = resource_stress (df ! i)
      \<and> access_constraints (load_impute df ! i) = access_constraints (df ! i)
      \<and> water_score (load_impute df ! i) = water_score (df ! i)
      \<and> forage_score (load_impute df ! i) = forage_score (df ! i)
      \<and> conflict_occurred (load_impute df ! i) = conflict_occurred (df ! i)
      \<and> priority_class (load_impute df ! i) = priority_class (df ! i)
      \<and> (ewi (df ! i) \<noteq> None \<longrightarrow> ewi (load_impute df ! i) = ewi (df ! i))
      \<and> load_impute df ! i = (df ! i)\<lparr>ewi := ewi (load_impute df ! i)\<rparr>)"
  by (auto simp: length_load_impute load_impute_nth fillna_def)

theorem load_impute_frame_witness:
  "length (load_impute ex_missing) = 3
   \<and> resource_stress (load_impute ex_missing ! 0) = Some 0.4
   \<and> access_constraints (load_impute ex_missing ! 0) = None
   \<and> conflict_occurred (load_impute ex_missing ! 1)
   \<and> priority_class (load_impute ex_missing ! 2) = Some 2
   \<and> ewi (ex_missing ! 2) \<noteq> None
   \<and> ewi (load_impute ex_missing ! 2) = Some 0.6"
proof -
  have n: "length ex_missing = 3" by (simp add: ex_missing_def)
  have i: "0 < length ex_missing" "1 < length ex_missing" "2 < length ex_missing"
    by (simp_all add: n)
  have v: "resource_stress (ex_missing ! 0) = Some 0.4"
    "access_constraints (ex_missing ! 0) = None"
    "conflict_occurred (ex_missing ! 1)"
    "priority_class (ex_missing ! 2) = Some 2"
    "ewi (ex_missing ! 2) = Some 0.6"
    by (simp_all add: ex_missing_def blank_def)
  note frame = load_impute_frame [of ex_missing]
  note row = frame [THEN conjunct2, rule_format]
  from frame have "length (load_impute ex_missing) = 3" by (simp add: n)
  with row [OF i(1)] row [OF i(2)] row [OF i(3)] v show ?thesis by simp
qed

section \<open>The threshold sweep\<close>

lemma for_each_Inr:
  "for_each f xs = Inr ys \<Longrightarrow> list_all2 (\<lambda>x y. f x = Inr y) xs ys"
  by (induction xs arbitrary: ys) (auto split: sum.splits)

lemma count_where_rows:
  "count_where P (map f df) (map g df) = length (filter (\<lambda>r. P (f r) (g r)) df)"
  by (induction df) (auto simp: count_where_def)

lemma predict_Fin: "predict (Fin t) df = map (\<lambda>r. scored_at_least r t) df"
  by (auto simp: predict_def np_ge_def of_cell_def scored_at_least_def split: option.splits)

lemma four_counts_sum:
  "length (filter (\<lambda>r. \<not> f r \<and> \<not> g r) df) + length (filter (\<lambda>r. \<not> f r \<and> g r) df)
   + length (filter (\<lambda>r. f r \<and> \<not> g r) df) + length (filter (\<lambda>r. f r \<and> g r) df) = length df"
  by (induction df) auto

lemma confusion4_rows:
  assumes "confusion4 (map f df) (map g df) = Inr (tn, fp, fn, tp)"
  shows "tn = length (filter (\<lambda>r. \<not> f r \<and> \<not> g r) df)"
    and "fp = length (filter (\<lambda>r. \<not> f r \<and> g r) df)"
    and "fn = length (filter (\<lambda>r. f r \<and> \<not> g r) df)"
    and "tp = length (filter (\<lambda>r. f r \<and> g r) df)"
    and "tn + fp + fn + tp = length df"
    and "df \<noteq> []"
  using assms four_counts_sum [of f g df]
  by (auto simp: confusion4_def count_where_rows split: if_splits)

lemma count_div_pos: "b > 0 \<Longrightarrow> count_div a b = Fin (real a / real b)"
  by (simp add: count_div_def)

lemma count_div_zero: "count_div 0 0 = NaN"
  by (simp add: count_div_def signed_inf_def)

lemma sweep_at_Inr:
  assumes "sweep_at df t = Inr row"
  shows "row = stated_metrics df t"
proof -
  define tn where "tn = length (filter (\<lambda>r. \<not> conflict_occurred r \<and> \<not> scored_at_least r t) df)"
  define fp where "fp = length (filter (\<lambda>r. \<not> conflict_occurred r \<and> scored_at_least r t) df)"
  define fn where "fn = length (filter (\<lambda>r. conflict_occurred r \<and> \<not> scored_at_least r t) df)"
  define tp where "tp = length (filter (\<lambda>r. conflict_occurred r \<and> scored_at_least r t) df)"
  define p where "p = (if tp + fp = 0 then 0 else real tp / real (tp + fp))"
  define rc where "rc = (if tp + fn = 0 then 0 else real tp / real (tp + fn))"
  from assms obtain tn' fp' fn' tp' where
    c: "confusion4 (map conflict_occurred df) (map (\<lambda>r. scored_at_least r t) df)
          = Inr (tn', fp', fn', tp')"
    by (auto simp: sweep_at_def predict_Fin split: sum.splits)
  note k = confusion4_rows [OF c]
  have eqs: "tn' = tn" "fp' = fp" "fn' = fn" "tp' = tp"
    using k(1-4) by (simp_all add: tn_def fp_def fn_def tp_def)
  have n: "tp + tn + fp + fn = length df" "length df > 0" using k(5,6) eqs by auto
  have p0: "0 \<le> p" "0 \<le> rc" by (simp_all add: p_def rc_def)
  have prec: "(if tp + fp > 0 then count_div tp (tp + fp) else Fin 0) = Fin p"
    by (simp add: p_def count_div_pos)
  have rec: "(if tp + fn > 0 then count_div tp (tp + fn) else Fin 0) = Fin rc"
    by (simp add: rc_def count_div_pos)
  have f1: "(if np_gt (np_add (Fin p) (Fin rc)) (Fin 0)
             then np_div (np_mul (Fin 2) (np_mul (Fin p) (Fin rc))) (np_add (Fin p) (Fin rc))
             else Fin 0) = Fin (if p + rc = 0 then 0 else 2 * (p * rc) / (p + rc))"
    using p0 by (auto simp: np_gt_def)
  have acc: "count_div (tp + tn) (tp + tn + fp + fn) = Fin (real (tp + tn) / real (length df))"
    using n by (simp add: count_div_pos)
  have spec: "stated_metrics df t =
      \<lparr>sw_threshold = t, sw_tn = tn, sw_fp = fp, sw_fn = fn, sw_tp = tp,
       sw_precision = Fin p, sw_recall = Fin rc,
       sw_f1 = Fin (if p + rc = 0 then 0 else 2 * (p * rc) / (p + rc)),
       sw_accuracy = Fin (real (tp + tn) / real (length df))\<rparr>"
    by (simp only: stated_metrics_def Let_def tn_def fp_def fn_def tp_def p_def rc_def)
  from assms show ?thesis
    by (simp only: sweep_at_def predict_Fin c [unfolded eqs] sum.case prod.case Let_def
        prec rec f1 acc sum.inject spec)
qed

lemma threshold_sweep_Inr:
  assumes "threshold_sweep df = Inr rows"
  shows "map sw_threshold rows = sweep_thresholds"
    and "row \<in> set rows \<Longrightarrow> row = stated_metrics df (sw_threshold row)"
proof -
  from assms have all: "list_all2 (\<lambda>t row. sweep_at df t = Inr row) sweep_thresholds rows"
    by (simp add: threshold_sweep_def for_each_Inr)
  then have is_spec: "list_all2 (\<lambda>t row. row = stated_metrics df t) sweep_thresholds rows"
    by (rule list_all2_mono) (rule sweep_at_Inr)
  then have "list_all2 (\<lambda>t row. sw_threshold row = t) sweep_thresholds rows"
    by (rule list_all2_mono) (simp add: stated_metrics_def Let_def)
  then show "map sw_threshold rows = sweep_thresholds"
    by (induction rule: list_all2_induct) auto
  show "row = stated_metrics df (sw_threshold row)" if "row \<in> set rows"
  proof -
    from that obtain i where i: "i < length rows" "rows ! i = row"
      by (auto simp: in_set_conv_nth)
    with is_spec have "row = stated_metrics df (sweep_thresholds ! i)"
      by (auto simp: list_all2_conv_all_nth)
    then show ?thesis by (simp add: stated_metrics_def Let_def)
  qed
qed

text \<open>
  C6. The sweep visits the thresholds 0.4, 0.5, 0.6 and 0.7, in this order; at each of
  them a row is classified positive exactly when its score is at least the threshold,
  and the line of the sweep holds the four counts and the precision, recall, F1 and
  accuracy the stated formulas give. On the scores 0.6 and 0.4 with the outcomes 1
  and 0, at the threshold 0.5, the counts are TP = 1, TN = 1, FP = 0, FN = 0 and the four
  metrics are 1.
\<close>

theorem threshold_sweep_stated:
  "(threshold_sweep df = Inr rows \<longrightarrow>
      map sw_threshold rows = [0.4, 0.5, 0.6, 0.7]
      \<and> (\<forall>row \<in> set rows. row = stated_metrics df (sw_threshold row)))
   \<and> predict (Fin t) df = map (\<lambda>r. scored_at_least r t) df
   \<and> sweep_at ex_two 0.5 =
       Inr \<lparr>sw_threshold = 0.5, sw_tn = 1, sw_fp = 0, sw_fn = 0, sw_tp = 1,
            sw_precision = Fin 1, sw_recall = Fin 1, sw_f1 = Fin 1, sw_accuracy = Fin 1\<rparr>"
proof (intro conjI impI ballI)
  assume a: "threshold_sweep df = Inr rows"
  from threshold_sweep_Inr(1) [OF a] show "map sw_threshold rows = [0.4, 0.5, 0.6, 0.7]"
    by (simp add: sweep_thresholds_def)
  fix row assume "row \<in> set rows"
  with threshold_sweep_Inr(2) [OF a] show "row = stated_metrics df (sw_threshold row)" .
next
  show "predict (Fin t) df = map (\<lambda>r. scored_at_least r t) df" by (rule predict_Fin)
next
  show "sweep_at ex_two 0.5 =
       Inr \<lparr>sw_threshold = 0.5, sw_tn = 1, sw_fp = 0, sw_fn = 0, sw_tp = 1,
            sw_precision = Fin 1, sw_recall = Fin 1, sw_f1 = Fin 1, sw_accuracy = Fin 1\<rparr>"
    by (simp add: sweep_at_def ex_two_def blank_def predict_def confusion4_def count_where_def
        np_ge_def of_cell_def count_div_def np_gt_def Let_def)
qed

theorem threshold_sweep_stated_witness:
  "threshold_sweep ex_two = Inr ex_two_sweep
   \<and> map sw_threshold ex_two_sweep = [0.4, 0.5, 0.6, 0.7]
   \<and> ex_two_sweep ! 0 \<in> set ex_two_sweep
   \<and> ex_two_sweep ! 0 = stated_metrics ex_two 0.4
   \<and> ex_two_sweep ! 3 \<in> set ex_two_sweep
   \<and> ex_two_sweep ! 3 = stated_metrics ex_two 0.7"
proof -
  have e: "threshold_sweep ex_two = Inr ex_two_sweep"
    by code_simp
  have m: "ex_two_sweep ! 0 \<in> set ex_two_sweep" "ex_two_sweep ! 3 \<in> set ex_two_sweep"
    and t: "sw_threshold (ex_two_sweep ! 0) = 0.4" "sw_threshold (ex_two_sweep ! 3) = 0.7"
    by (simp_all add: ex_two_sweep_def)
  note th = threshold_sweep_stated [of ex_two ex_two_sweep, THEN conjunct1, rule_format, OF e]
  from th have "map sw_threshold ex_two_sweep = [0.4, 0.5, 0.6, 0.7]" by (rule conjunct1)
  moreover from th m(1) have "ex_two_sweep ! 0 = stated_metrics ex_two 0.4"
    unfolding t(1) [symmetric] by blast
  moreover from th m(2) have "ex_two_sweep ! 3 = stated_metrics ex_two 0.7"
    unfolding t(2) [symmetric] by blast
  ultimately show ?thesis using e m by simp
qed

section \<open>The verdict\<close>





section \<open>The component analysis\<close>

lemma map_filter_frame:
  "(\<And>r. P (g r) = P r) \<Longrightarrow> (\<And>r. f (g r) = f r) \<Longrightarrow>
   map f (filter P (map g xs)) = map f (filter P xs)"
  by (induction xs) auto

lemma for_each_cong:
  "(\<And>x. x \<in> set xs \<Longrightarrow> f x = g x) \<Longrightarrow> for_each f xs = for_each g xs"
  by (induction xs) (auto split: sum.splits)

lemma component_at_frame:
  assumes "nc \<in> set components"
  shows "component_at policy (map (\<lambda>r. r\<lparr>access_constraints := v r\<rparr>) df) nc
     = component_at policy df nc"
proof -
  obtain name col where nc: "nc = (name, col)" by (cases nc)
  with assms have col: "\<And>r. col (r\<lparr>access_constraints := v r\<rparr>) = col r"
    by (auto simp: components_def)
  have 1: "map col (map (\<lambda>r. r\<lparr>access_constraints := v r\<rparr>) df) = map col df"
    by (simp add: col)
  have 2: "map conflict_occurred (map (\<lambda>r. r\<lparr>access_constraints := v r\<rparr>) df)
      = map conflict_occurred df"
    by simp
  have 3: "map col (filter P (map (\<lambda>r. r\<lparr>access_constraints := v r\<rparr>) df))
      = map col (filter P df)" if "\<And>r. P (r\<lparr>access_constraints := v r\<rparr>) = P r" for P
    using that col by (rule map_filter_frame)
  show ?thesis
    unfolding nc component_at_def prod.case 1 2
    by (simp add: 3 cong: sum.case_cong)
qed

lemma component_analysis_frame:
  "component_analysis policy (map (\<lambda>r. r\<lparr>access_constraints := v r\<rparr>) df)
     = component_analysis policy df"
  unfolding component_analysis_def
  by (rule for_each_cong) (rule component_at_frame)

lemma component_at_Inr:
  "component_at policy df (name, col) = Inr row \<Longrightarrow>
     c_name row = name
     \<and> roc_auc_score policy (map conflict_occurred df) (map col df) = Inr (c_auc row)
     \<and> c_mean_conflict row = nanmean (map col (filter (\<lambda>r. conflict_occurred r) df))
     \<and> c_mean_no_conflict row = nanmean (map col (filter (\<lambda>r. \<not> conflict_occurred r) df))"
  by (auto simp: component_at_def split: sum.splits)

lemma component_analysis_Inr:
  assumes "component_analysis policy df = Inr rows"
  shows "map c_name rows =
          [''Cattle Convergence'', ''Conflict Risk'', ''Resource Stress'', ''Water Score'',
           ''Forage Score'']
      \<and> map (\<lambda>row. Inr (c_auc row)) rows =
          map (\<lambda>col. roc_auc_score policy (map conflict_occurred df) (map col df))
            [cattle_convergence, conflict_risk, resource_stress, water_score, forage_score]
      \<and> map c_mean_conflict rows =
          map (\<lambda>col. nanmean (map col (filter (\<lambda>r. conflict_occurred r) df)))
            [cattle_convergence, conflict_risk, resource_stress, water_score, forage_score]
      \<and> map c_mean_no_conflict rows =
          map (\<lambda>col. nanmean (map col (filter (\<lambda>r. \<not> conflict_occurred r) df)))
            [cattle_convergence, conflict_risk, resource_stress, water_score, forage_score]"
proof -
  from assms have "list_all2 (\<lambda>nc row. component_at policy df nc = Inr row) components rows"
    by (simp add: component_analysis_def for_each_Inr)
  then obtain r1 r2 r3 r4 r5 where rows: "rows = [r1, r2, r3, r4, r5]"
    and r: "component_at policy df (''Cattle Convergence'', cattle_convergence) = Inr r1"
      "component_at policy df (''Conflict Risk'', conflict_risk) = Inr r2"
      "component_at policy df (''Resource Stress'', resource_stress) = Inr r3"
      "component_at policy df (''Water Score'', water_score) = Inr r4"
      "component_at policy df (''Forage Score'', forage_score) = Inr r5"
    by (auto simp: components_def list_all2_Cons1)
  note f = r [THEN component_at_Inr]
  from f show ?thesis by (simp add: rows)
qed

lemma access_constraints_not_evaluated: "access_constraints \<notin> snd ` set components"
proof -
  have "access_constraints (blank\<lparr>access_constraints := Some 1\<rparr>)
          \<noteq> c (blank\<lparr>access_constraints := Some 1\<rparr>)"
    if "c \<in> snd ` set components" for c
    using that by (auto simp: components_def blank_def)
  then show ?thesis by metis
qed

text \<open>
  C10. The component analysis works on five columns: cattle convergence, conflict risk,
  resource stress, water score and forage score. When it ends without an error it gives
  one line for each of them, in this order, with the AUC of that column against the
  outcomes and the means of that column over the rows with outcome 1 and with outcome
  0. The column \<open>access_constraints\<close> is one of the six columns of the imputation, is
  not among the five, and the analysis does not depend on it: changing that column in
  any way changes nothing.
\<close>

theorem component_analysis_five:
  "map fst components =
     [''Cattle Convergence'', ''Conflict Risk'', ''Resource Stress'', ''Water Score'',
      ''Forage Score'']
   \<and> (component_analysis policy df = Inr rows \<longrightarrow>
        map c_name rows =
          [''Cattle Convergence'', ''Conflict Risk'', ''Resource Stress'', ''Water Score'',
           ''Forage Score'']
      \<and> map (\<lambda>row. Inr (c_auc row)) rows =
          map (\<lambda>col. roc_auc_score policy (map conflict_occurred df) (map col df))
            [cattle_convergence, conflict_risk, resource_stress, water_score, forage_score]
      \<and> map c_mean_conflict rows =
          map (\<lambda>col. nanmean (map col (filter (\<lambda>r. conflict_occurred r) df)))
            [cattle_convergence, conflict_risk, resource_stress, water_score, forage_score]
      \<and> map c_mean_no_conflict rows =
          map (\<lambda>col. nanmean (map col (filter (\<lambda>r. \<not> conflict_occurred r) df)))
            [cattle_convergence, conflict_risk, resource_stress, water_score, forage_score])
   \<and> access_constraints \<in> set component_cols_for_ewi
   \<and> access_constraints \<notin> snd ` set components
   \<and> component_analysis policy (map (\<lambda>r. r\<lparr>access_constraints := v r\<rparr>) df)
       = component_analysis policy df"
proof (intro conjI impI)
  show "map fst components =
     [''Cattle Convergence'', ''Conflict Risk'', ''Resource Stress'', ''Water Score'',
      ''Forage Score'']"
    by (simp add: components_def)
  show "access_constraints \<in> set component_cols_for_ewi"
    by (simp add: component_cols_for_ewi_def)
  show "access_constraints \<notin> snd ` set components"
    by (rule access_constraints_not_evaluated)
  show "component_analysis policy (map (\<lambda>r. r\<lparr>access_constraints := v r\<rparr>) df)
       = component_analysis policy df"
    by (rule component_analysis_frame)
qed (simp_all add: component_analysis_Inr)

theorem component_analysis_five_witness:
  "\<exists>rows. component_analysis Raise_error ex_four = Inr rows
     \<and> map c_name rows =
          [''Cattle Convergence'', ''Conflict Risk'', ''Resource Stress'', ''Water Score'',
           ''Forage Score'']
     \<and> map c_auc rows = [Fin 1, Fin (1 / 2), Fin (1 / 2), Fin 0, Fin (1 / 2)]
     \<and> map c_mean_conflict rows =
          [Some (17 / 20), Some (1 / 2), Some (1 / 2), Some (3 / 20), Some (1 / 2)]"
proof -
  have "case component_analysis Raise_error ex_four of
          Inl e \<Rightarrow> False
        | Inr rows \<Rightarrow> map c_auc rows = [Fin 1, Fin (1 / 2), Fin (1 / 2), Fin 0, Fin (1 / 2)]
            \<and> map c_mean_conflict rows =
                [Some (17 / 20), Some (1 / 2), Some (1 / 2), Some (3 / 20), Some (1 / 2)]"
    by code_simp
  then obtain rows where rows: "component_analysis Raise_error ex_four = Inr rows"
    "map c_auc rows = [Fin 1, Fin (1 / 2), Fin (1 / 2), Fin 0, Fin (1 / 2)]"
    "map c_mean_conflict rows =
       [Some (17 / 20), Some (1 / 2), Some (1 / 2), Some (3 / 20), Some (1 / 2)]"
    by (auto split: sum.splits)
  note th = component_analysis_five [of Raise_error ex_four rows, THEN conjunct2,
      THEN conjunct1, rule_format, OF rows(1)]
  from th have names: "map c_name rows =
          [''Cattle Convergence'', ''Conflict Risk'', ''Resource Stress'', ''Water Score'',
           ''Forage Score'']"
    by (rule conjunct1)
  show ?thesis
    by (rule exI [of _ rows]) (intro conjI rows names)
qed

section \<open>Rows whose score is still missing\<close>

lemma negatives_count:
  "length (filter (\<lambda>r. \<not> f r \<and> \<not> g r) df) + length (filter (\<lambda>r. f r \<and> \<not> g r) df)
     = length (filter (\<lambda>r. \<not> g r) df)"
  by (induction df) auto

lemma sweep_at_negatives:
  assumes "sweep_at df t = Inr row"
  shows "sw_tn row + sw_fp row + sw_fn row + sw_tp row = length df"
    and "sw_tn row + sw_fn row = length (filter (\<lambda>r. \<not> scored_at_least r t) df)"
proof -
  have row: "row = stated_metrics df t" using assms by (rule sweep_at_Inr)
  show "sw_tn row + sw_fp row + sw_fn row + sw_tp row = length df"
    unfolding row stated_metrics_def Let_def
    using four_counts_sum [of conflict_occurred "\<lambda>r. scored_at_least r t" df] by simp
  show "sw_tn row + sw_fn row = length (filter (\<lambda>r. \<not> scored_at_least r t) df)"
    unfolding row stated_metrics_def Let_def
    using negatives_count [of conflict_occurred "\<lambda>r. scored_at_least r t" df] by simp
qed

lemma run_auc_error:
  "roc_auc_score policy (map conflict_occurred (load_impute csv)) (map ewi (load_impute csv))
     = Inl e \<Longrightarrow> run policy csv = Inl e"
  by (simp add: run_def Let_def)

text \<open>
  C1, as the script has it. No row is left out. When a row of the loaded table still
  has no composite score, the AUC computation and the ROC curve computation are given
  that row with all the others and reject the table, and the run ends with that error
  at the AUC, the first of them. The threshold classification never counts such a row as
  positive: in a line of the sweep it is among the predicted negatives, and the four
  counts add up to the number of all rows.
\<close>

theorem residual_missing_rows:
  assumes "r \<in> set (load_impute csv)" and "ewi r = None"
  defines "df \<equiv> load_impute csv"
  shows "roc_auc_score policy (map conflict_occurred df) (map ewi df) = Inl Input_contains_NaN
       \<and> roc_curve (map conflict_occurred df) (map ewi df) = Inl Input_contains_NaN
       \<and> run policy csv = Inl Input_contains_NaN
       \<and> \<not> np_ge (of_cell (ewi r)) threshold
       \<and> (sweep_at df t = Inr row \<longrightarrow>
            sw_tn row + sw_fp row + sw_fn row + sw_tp row = length df
          \<and> sw_tn row + sw_fn row = length (filter (\<lambda>r. \<not> scored_at_least r t) df)
          \<and> r \<in> set (filter (\<lambda>r. \<not> scored_at_least r t) df))"
proof -
  from assms(1) have ne: "df \<noteq> []" and mem: "r \<in> set df" by (auto simp: df_def)
  from mem assms(2) have none: "None \<in> set (map ewi df)" by force
  have auc: "roc_auc_score policy (map conflict_occurred df) (map ewi df)
      = Inl Input_contains_NaN"
    using ne none by (simp add: roc_auc_score_def)
  moreover have "roc_curve (map conflict_occurred df) (map ewi df) = Inl Input_contains_NaN"
    using ne none by (simp add: roc_curve_def)
  moreover have "run policy csv = Inl Input_contains_NaN"
    using auc unfolding df_def by (rule run_auc_error)
  moreover have "\<not> np_ge (of_cell (ewi r)) threshold"
    by (simp add: assms(2) of_cell_def np_ge_def)
  moreover have "r \<in> set (filter (\<lambda>r. \<not> scored_at_least r t) df)"
    using mem assms(2) by (simp add: scored_at_least_def)
  ultimately show ?thesis
    using sweep_at_negatives [of df t row] by blast
qed

theorem residual_missing_rows_witness:
  "load_impute ex_missing ! 1 \<in> set (load_impute ex_missing)
   \<and> ewi (load_impute ex_missing ! 1) = None
   \<and> run Return_nan ex_missing = Inl Input_contains_NaN
   \<and> (\<exists>row. sweep_at (load_impute ex_missing) 0.4 = Inr row
         \<and> sw_tn row + sw_fp row + sw_fn row + sw_tp row = length (load_impute ex_missing)
         \<and> length (load_impute ex_missing) = 3)"
proof -
  have m: "load_impute ex_missing ! 1 \<in> set (load_impute ex_missing)"
    and e: "ewi (load_impute ex_missing ! 1) = None"
    and n: "length (load_impute ex_missing) = 3"
    by code_simp+
  have "case sweep_at (load_impute ex_missing) 0.4 of Inl e \<Rightarrow> False | Inr row \<Rightarrow> True"
    by code_simp
  then obtain row where row: "sweep_at (load_impute ex_missing) 0.4 = Inr row"
    by (auto split: sum.splits)
  note th = residual_missing_rows [OF m e, where policy = Return_nan
      and threshold = "Fin 0.4" and t = "0.4" and row = row]
  from th have "run Return_nan ex_missing = Inl Input_contains_NaN" by simp
  moreover from th row
  have "sw_tn row + sw_fp row + sw_fn row + sw_tp row = length (load_impute ex_missing)"
    by simp
  ultimately show ?thesis using m e n row by blast
qed

text \<open>
  Against C1 as it is stated: on the table \<open>ex_missing\<close> the second row keeps a missing
  score after the imputation. The run ends with an error, whatever the library does
  with one class; and the sweep over the loaded table is not the sweep over its rows
  with a score: the row is counted as a missed conflict at every threshold.
\<close>

theorem residual_missing_counterexample:
  "ewi (load_impute ex_missing ! 1) = None
   \<and> (\<forall>policy. run policy ex_missing = Inl Input_contains_NaN)
   \<and> (\<exists>rows. threshold_sweep (load_impute ex_missing) = Inr rows
         \<and> map sw_fn rows = [2, 2, 2, 2])
   \<and> (\<exists>rows. threshold_sweep (filter (\<lambda>r. ewi r \<noteq> None) (load_impute ex_missing)) = Inr rows
         \<and> map sw_fn rows = [1, 1, 1, 1])
   \<and> threshold_sweep (load_impute ex_missing)
       \<noteq> threshold_sweep (filter (\<lambda>r. ewi r \<noteq> None) (load_impute ex_missing))"
proof -
  have e: "ewi (load_impute ex_missing ! 1) = None" by code_simp
  have r: "run policy ex_missing = Inl Input_contains_NaN" for policy
    by (cases policy; code_simp)
  have "case threshold_sweep (load_impute ex_missing) of
          Inl e \<Rightarrow> False | Inr rows \<Rightarrow> map sw_fn rows = [2, 2, 2, 2]"
    by code_simp
  then obtain rows1 where 1: "threshold_sweep (load_impute ex_missing) = Inr rows1"
    "map sw_fn rows1 = [2, 2, 2, 2]"
    by (auto split: sum.splits)
  have "case threshold_sweep (filter (\<lambda>r. ewi r \<noteq> None) (load_impute ex_missing)) of
          Inl e \<Rightarrow> False | Inr rows \<Rightarrow> map sw_fn rows = [1, 1, 1, 1]"
    by code_simp
  then obtain rows2 where 2:
    "threshold_sweep (filter (\<lambda>r. ewi r \<noteq> None) (load_impute ex_missing)) = Inr rows2"
    "map sw_fn rows2 = [1, 1, 1, 1]"
    by (auto split: sum.splits)
  from 1 2 have "rows1 \<noteq> rows2" by auto
  with 1 2 e r show ?thesis by auto
qed

section \<open>Outcomes of one class\<close>

text \<open>
  On a table with rows, scores without NaN and outcomes of one class only, the AUC
  computation is the library's alone: an error under the one behaviour, the value NaN
  under the other. The script adds no check of its own before or after the call.
\<close>

lemma one_class_auc:
  assumes "ys \<noteq> []" and "None \<notin> set ss" and "\<not> (True \<in> set ys \<and> False \<in> set ys)"
  shows "roc_auc_score Raise_error ys ss = Inl Only_one_class"
    and "roc_auc_score Return_nan ys ss = Inr NaN"
  using assms by (simp_all add: roc_auc_score_def)

section \<open>The summary at the optimal threshold\<close>

text \<open>
  C2 at the summary. On the table \<open>ex_inverted\<close> no point of the curve has a J above
  the J of its first point, so the optimal threshold is \<open>inf\<close> and no row is predicted
  positive: \<open>TP + FP = 0\<close>. The summary divides without the guards of the sweep, and
  its precision and its F1 are NaN, not 0. The sweep, on the same table, has the
  precision 0 where \<open>TP + FP = 0\<close>.
\<close>

theorem summary_unguarded_nan:
  "\<forall>policy. \<exists>rep. run policy ex_inverted = Inr rep
      \<and> r_optimal_threshold rep = PInf
      \<and> s_tp (r_summary rep) + s_fp (r_summary rep) = 0
      \<and> s_precision (r_summary rep) = NaN
      \<and> s_recall (r_summary rep) = Fin 0
      \<and> s_f1 (r_summary rep) = NaN
      \<and> sw_tp (r_sweep rep ! 3) + sw_fp (r_sweep rep ! 3) = 0
      \<and> sw_precision (r_sweep rep ! 3) = Fin 0"
proof
  fix policy
  let ?shown = "\<lambda>policy. case run policy ex_inverted of
          Inl e \<Rightarrow> False
        | Inr rep \<Rightarrow> r_optimal_threshold rep = PInf
            \<and> s_tp (r_summary rep) + s_fp (r_summary rep) = 0
            \<and> s_precision (r_summary rep) = NaN
            \<and> s_recall (r_summary rep) = Fin 0
            \<and> s_f1 (r_summary rep) = NaN
            \<and> sw_tp (r_sweep rep ! 3) + sw_fp (r_sweep rep ! 3) = 0
            \<and> sw_precision (r_sweep rep ! 3) = Fin 0"
  have "?shown Raise_error" by code_simp
  moreover have "?shown Return_nan" by code_simp
  ultimately have "?shown policy" by (cases policy) simp_all
  then show "\<exists>rep. run policy ex_inverted = Inr rep
      \<and> r_optimal_threshold rep = PInf
      \<and> s_tp (r_summary rep) + s_fp (r_summary rep) = 0
      \<and> s_precision (r_summary rep) = NaN
      \<and> s_recall (r_summary rep) = Fin 0
      \<and> s_f1 (r_summary rep) = NaN
      \<and> sw_tp (r_sweep rep ! 3) + sw_fp (r_sweep rep ! 3) = 0
      \<and> sw_precision (r_sweep rep ! 3) = Fin 0"
    by (cases "run policy ex_inverted") simp_all
qed

section \<open>The priority zones\<close>

text \<open>
  The sort of \<^const>\<open>py_sorted\<close> gives, for any comparison, the values it was given; on a
  total order it gives them ascending, as every sort does. So the loop prints one line
  for each distinct priority class other than 0 and NaN, whatever the column holds, and
  prints them in ascending order when the column holds no NaN.
\<close>

lemma bisect_range:
  "l \<le> r \<Longrightarrow> l \<le> bisect lt pivot xs l r \<and> bisect lt pivot xs l r \<le> r"
proof (induction lt pivot xs l r rule: bisect.induct)
  case (1 lt pivot xs l r)
  show ?case
  proof (cases "l < r")
    case True
    define p where "p = l + (r - l) div 2"
    from True have p: "l \<le> p" "p < r" unfolding p_def by linarith+
    show ?thesis
    proof (cases "lt pivot (xs ! p)")
      case t: True
      from "1.IH"(1) [OF True p_def t] p have "l \<le> bisect lt pivot xs l p \<and> bisect lt pivot xs l p \<le> p"
        by simp
      with True t p show ?thesis
        by (subst (1 2) bisect.simps) (simp add: p_def [symmetric] Let_def)
    next
      case f: False
      from "1.IH"(2) [OF True p_def f] p
      have "Suc p \<le> bisect lt pivot xs (Suc p) r \<and> bisect lt pivot xs (Suc p) r \<le> r"
        by simp
      with True f p show ?thesis
        by (subst (1 2) bisect.simps) (simp add: p_def [symmetric] Let_def)
    qed
  next
    case False
    with "1.prems" show ?thesis by (subst (1 2) bisect.simps) simp
  qed
qed

lemma mset_take_drop: "mset (take k xs) + mset (drop k xs) = mset xs"
  by (metis append_take_drop_id mset_append)

lemma mset_binary_insert: "mset (binary_insert lt x xs) = add_mset x (mset xs)"
  by (simp add: binary_insert_def Let_def mset_take_drop)

lemma mset_binarysort: "mset (binarysort lt front xs) = mset front + mset xs"
  by (induction xs arbitrary: front) (simp_all add: mset_binary_insert)

lemma mset_py_sorted: "mset (py_sorted lt xs) = mset xs"
proof -
  obtain n d where c: "count_run lt xs = (n, d)" by (cases "count_run lt xs")
  show ?thesis by (simp add: py_sorted_def c mset_binarysort mset_take_drop)
qed

lemma bisect_sorted:
  fixes xs :: "'a::linorder list"
  assumes "sorted xs" "l \<le> r" "r \<le> length xs"
    and "\<forall>j < l. xs ! j \<le> pivot" and "\<forall>j. r \<le> j \<and> j < length xs \<longrightarrow> pivot < xs ! j"
  shows "(\<forall>j < bisect (<) pivot xs l r. xs ! j \<le> pivot)
       \<and> (\<forall>j. bisect (<) pivot xs l r \<le> j \<and> j < length xs \<longrightarrow> pivot < xs ! j)"
  using assms
proof (induction "(<) :: 'a \<Rightarrow> 'a \<Rightarrow> bool" pivot xs l r rule: bisect.induct)
  case (1 pivot xs l r)
  show ?case
  proof (cases "l < r")
    case True
    define p where "p = l + (r - l) div 2"
    from True have p: "l \<le> p" "p < r" unfolding p_def by linarith+
    show ?thesis
    proof (cases "pivot < xs ! p")
      case t: True
      have "\<forall>j. p \<le> j \<and> j < length xs \<longrightarrow> pivot < xs ! j"
      proof (intro allI impI)
        fix j assume "p \<le> j \<and> j < length xs"
        with \<open>sorted xs\<close> have "xs ! p \<le> xs ! j" by (simp add: sorted_nth_mono)
        with t show "pivot < xs ! j" by simp
      qed
      with "1.hyps"(1) [OF True p_def t] "1.prems" p
      have "(\<forall>j < bisect (<) pivot xs l p. xs ! j \<le> pivot)
         \<and> (\<forall>j. bisect (<) pivot xs l p \<le> j \<and> j < length xs \<longrightarrow> pivot < xs ! j)"
        by simp
      with True t show ?thesis
        by (subst (1 2) bisect.simps) (simp add: p_def [symmetric] Let_def)
    next
      case f: False
      have "\<forall>j < Suc p. xs ! j \<le> pivot"
      proof (intro allI impI)
        fix j assume "j < Suc p"
        with \<open>sorted xs\<close> p "1.prems"(3) have "xs ! j \<le> xs ! p" by (simp add: sorted_nth_mono)
        with f show "xs ! j \<le> pivot" by simp
      qed
      with "1.hyps"(2) [OF True p_def f] "1.prems" p
      have "(\<forall>j < bisect (<) pivot xs (Suc p) r. xs ! j \<le> pivot)
         \<and> (\<forall>j. bisect (<) pivot xs (Suc p) r \<le> j \<and> j < length xs \<longrightarrow> pivot < xs ! j)"
        by simp
      with True f show ?thesis
        by (subst (1 2) bisect.simps) (simp add: p_def [symmetric] Let_def)
    qed
  next
    case False
    with "1.prems" have "l = r" by simp
    with "1.prems" show ?thesis by (subst (1 2) bisect.simps) simp
  qed
qed

lemma sorted_binary_insert:
  fixes xs :: "'a::linorder list"
  assumes "sorted xs"
  shows "sorted (binary_insert (<) x xs)"
proof -
  define k where "k = bisect (<) x xs 0 (length xs)"
  from bisect_range [of 0 "length xs" "(<)" x xs] have k: "k \<le> length xs" by (simp add: k_def)
  have "\<forall>j. length xs \<le> j \<and> j < length xs \<longrightarrow> x < xs ! j" by auto
  with bisect_sorted [OF assms, of 0 "length xs" x]
  have lo: "\<forall>j < k. xs ! j \<le> x" and hi: "\<forall>j. k \<le> j \<and> j < length xs \<longrightarrow> x < xs ! j"
    unfolding k_def by blast+
  have "\<forall>y \<in> set (take k xs). y \<le> x"
    using lo k by (auto simp: in_set_conv_nth)
  moreover have "\<forall>y \<in> set (drop k xs). x \<le> y"
    using hi k by (auto simp: in_set_conv_nth less_imp_le)
  moreover have "sorted (take k xs)" "sorted (drop k xs)"
    using assms by (simp_all add: sorted_wrt_take sorted_wrt_drop)
  moreover have "\<forall>a \<in> set (take k xs). \<forall>b \<in> set (drop k xs). a \<le> b"
    using assms by (metis append_take_drop_id sorted_append)
  ultimately show ?thesis
    by (simp add: binary_insert_def k_def [symmetric] sorted_append)
qed

lemma sorted_binarysort:
  fixes front :: "'a::linorder list"
  shows "sorted front \<Longrightarrow> sorted (binarysort (<) front xs)"
  by (induction xs arbitrary: front) (simp_all add: sorted_binary_insert)

lemma sorted_run_asc:
  fixes x :: "'a::linorder"
  shows "sorted (x # take (run_asc (<) x xs) xs)"
  by (induction xs arbitrary: x) (auto simp: not_less dest: order_trans)

lemma sorted_run_desc:
  fixes x :: "'a::linorder"
  shows "sorted (rev (x # take (run_desc (<) x xs) xs))"
proof (induction xs arbitrary: x)
  case (Cons a xs)
  show ?case
  proof (cases "a < x")
    case True
    from Cons [of a] have "sorted (rev (take (run_desc (<) a xs) xs))"
      and le: "\<forall>z \<in> set (take (run_desc (<) a xs) xs). z \<le> a"
      by (auto simp: sorted_append)
    moreover from le True have "\<forall>z \<in> set (take (run_desc (<) a xs) xs). z \<le> x"
      by (meson less_imp_le order_trans)
    ultimately show ?thesis using True by (auto simp: sorted_append)
  qed simp
qed simp

lemma sorted_first_run:
  fixes xs :: "'a::linorder list"
  assumes "count_run (<) xs = (n, d)"
  shows "sorted (if d then rev (take n xs) else take n xs)"
proof (cases xs)
  case Nil
  with assms show ?thesis by auto
next
  case (Cons x t)
  show ?thesis
  proof (cases t)
    case Nil
    with assms Cons show ?thesis by auto
  next
    case (Cons y ys)
    show ?thesis
    proof (cases "y < x")
      case True
      with assms \<open>xs = x # t\<close> Cons have n: "n = 2 + run_desc (<) y ys" "d" by auto
      from sorted_run_desc [of y ys]
      have "sorted (rev (take (run_desc (<) y ys) ys) @ [y])" by simp
      then have "sorted (rev (take (run_desc (<) y ys) ys))"
        and "\<forall>z \<in> set (take (run_desc (<) y ys) ys). z \<le> y"
        by (auto simp: sorted_append)
      with True show ?thesis
        by (auto simp: n \<open>xs = x # t\<close> Cons sorted_append less_imp_le dest: order_trans)
    next
      case False
      with assms \<open>xs = x # t\<close> Cons have n: "n = 2 + run_asc (<) y ys" "\<not> d" by auto
      from sorted_run_asc [of y ys] False show ?thesis
        by (auto simp: n \<open>xs = x # t\<close> Cons not_less dest: order_trans)
    qed
  qed
qed

lemma sorted_py_sorted:
  fixes xs :: "'a::linorder list"
  shows "sorted (py_sorted (<) xs)"
proof -
  obtain n d where c: "count_run (<) xs = (n, d)" by (cases "count_run (<) xs")
  from sorted_first_run [OF c] show ?thesis
    by (simp add: py_sorted_def c sorted_binarysort)
qed

lemma py_sorted_sort:
  fixes xs :: "'a::linorder list"
  shows "py_sorted (<) xs = sort xs"
  by (rule properties_for_sort [symmetric]) (simp_all add: mset_py_sorted sorted_py_sorted)

lemma prio_lt_Some: "prio_lt (Some a) (Some b) = (a < b)"
  by (simp add: prio_lt_def)

lemma run_asc_Some: "run_asc prio_lt (Some x) (map Some xs) = run_asc (<) x xs"
  by (induction xs arbitrary: x) (simp_all add: prio_lt_Some)

lemma run_desc_Some: "run_desc prio_lt (Some x) (map Some xs) = run_desc (<) x xs"
  by (induction xs arbitrary: x) (simp_all add: prio_lt_Some)

lemma count_run_Some: "count_run prio_lt (map Some xs) = count_run (<) xs"
proof (cases xs)
  case (Cons x t)
  then show ?thesis
    by (cases t) (simp_all add: prio_lt_Some run_asc_Some run_desc_Some)
qed simp

lemma bisect_Some:
  fixes xs :: "int list"
  shows "r \<le> length xs \<Longrightarrow>
    bisect prio_lt (Some x) (map Some xs) l r = bisect (<) x xs l r"
proof (induction "(<) :: int \<Rightarrow> int \<Rightarrow> bool" x xs l r rule: bisect.induct)
  case (1 pivot xs l r)
  show ?case
  proof (cases "l < r")
    case True
    define p where "p = l + (r - l) div 2"
    from True have p: "l \<le> p" "p < r" unfolding p_def by linarith+
    with "1.prems" have nth: "map Some xs ! p = Some (xs ! p)" by simp
    show ?thesis
    proof (cases "pivot < xs ! p")
      case t: True
      from "1.hyps"(1) [OF True p_def t] p "1.prems"
      have "bisect prio_lt (Some pivot) (map Some xs) l p = bisect (<) pivot xs l p" by simp
      with True t nth show ?thesis
        by (subst (1 2) bisect.simps) (simp add: p_def [symmetric] Let_def prio_lt_Some)
    next
      case f: False
      from "1.hyps"(2) [OF True p_def f] p "1.prems"
      have "bisect prio_lt (Some pivot) (map Some xs) (Suc p) r = bisect (<) pivot xs (Suc p) r"
        by simp
      with True f nth show ?thesis
        by (subst (1 2) bisect.simps) (simp add: p_def [symmetric] Let_def prio_lt_Some)
    qed
  next
    case False
    then show ?thesis by (subst (1 2) bisect.simps) simp
  qed
qed

lemma binary_insert_Some:
  "binary_insert prio_lt (Some x) (map Some xs) = map Some (binary_insert (<) x xs)"
  by (simp add: binary_insert_def bisect_Some Let_def take_map drop_map)

lemma binarysort_Some:
  "binarysort prio_lt (map Some front) (map Some xs) = map Some (binarysort (<) front xs)"
  by (induction xs arbitrary: front) (simp_all add: binary_insert_Some)

lemma py_sorted_Some: "py_sorted prio_lt (map Some xs) = map Some (sort xs)"
proof -
  obtain n d where c: "count_run (<) xs = (n, d)" by (cases "count_run (<) xs")
  have "py_sorted prio_lt (map Some xs) = map Some (py_sorted (<) xs)"
    by (simp add: py_sorted_def count_run_Some c binarysort_Some
        take_map drop_map rev_map flip: binarysort_Some)
  then show ?thesis by (simp add: py_sorted_sort)
qed

lemma unique_fold:
  "set (fold (\<lambda>x acc. if x \<in> set acc then acc else acc @ [x]) xs acc) = set acc \<union> set xs
   \<and> (distinct acc \<longrightarrow> distinct (fold (\<lambda>x acc. if x \<in> set acc then acc else acc @ [x]) xs acc))"
  by (induction xs arbitrary: acc) auto

lemma set_unique: "set (unique xs) = set xs"
  and distinct_unique: "distinct (unique xs)"
  using unique_fold [of xs "[]"] by (simp_all add: unique_def)

lemma distinct_shown:
  "distinct ps \<Longrightarrow> distinct (concat (map shown_priority ps))"
  by (induction ps) (auto simp: shown_priority_def split: option.splits if_splits)

lemma set_shown:
  "set (concat (map shown_priority ps)) = {v. Some v \<in> set ps \<and> v \<noteq> 0}"
  by (induction ps) (auto simp: shown_priority_def split: option.splits if_splits)

lemma zone_priorities_shown:
  "zone_priorities df =
     concat (map shown_priority (py_sorted prio_lt (unique (map priority_class df))))"
  by (simp add: zone_priorities_def shown_priority_def [abs_def])

lemma zone_priorities_values:
  "set (zone_priorities df) = {v. Some v \<in> priority_class ` set df \<and> v \<noteq> 0}
   \<and> distinct (zone_priorities df)"
proof -
  let ?u = "unique (map priority_class df)"
  have m: "mset (py_sorted prio_lt ?u) = mset ?u" by (rule mset_py_sorted)
  then have "set (py_sorted prio_lt ?u) = set ?u" by (rule mset_eq_setD)
  moreover from m have "distinct (py_sorted prio_lt ?u)"
    using distinct_unique [of "map priority_class df"] by (metis mset_eq_imp_distinct_iff)
  ultimately have "set (zone_priorities df) = {v. Some v \<in> set ?u \<and> v \<noteq> 0}"
    and "distinct (zone_priorities df)"
    unfolding zone_priorities_shown by (simp_all only: set_shown distinct_shown)
  then show ?thesis by (simp add: set_unique)
qed

lemma all_Some: "None \<notin> set ps \<Longrightarrow> \<exists>vs. ps = map Some vs"
proof (induction ps)
  case (Cons p ps)
  then obtain vs where "ps = map Some vs" by auto
  moreover from Cons.prems obtain v where "p = Some v" by (cases p) auto
  ultimately have "p # ps = map Some (v # vs)" by simp
  then show ?case ..
qed simp

lemma shown_Some: "concat (map shown_priority (map Some vs)) = filter (\<lambda>v. v \<noteq> 0) vs"
  by (induction vs) (simp_all add: shown_priority_def)

lemma zone_priorities_ascending:
  assumes "None \<notin> priority_class ` set df"
  shows "sorted (zone_priorities df)"
proof -
  from assms have "None \<notin> set (unique (map priority_class df))"
    by (simp add: set_unique)
  then obtain vs where vs: "unique (map priority_class df) = map Some vs"
    using all_Some by blast
  have "zone_priorities df = filter (\<lambda>v. v \<noteq> 0) (sort vs)"
    by (simp only: zone_priorities_shown vs py_sorted_Some shown_Some)
  then show ?thesis by (simp add: sorted_wrt_filter)
qed

lemma zone_at_row:
  "z_total (zone_at df p) = length (filter (\<lambda>r. priority_class r = Some p) df)
   \<and> z_conflicts (zone_at df p)
       = length (filter (\<lambda>r. priority_class r = Some p \<and> conflict_occurred r) df)
   \<and> z_pct (zone_at df p) =
       (if z_total (zone_at df p) = 0 then Fin 0
        else Fin (real (z_conflicts (zone_at df p)) / real (z_total (zone_at df p)) * 100))
   \<and> (p \<notin> {1, 2, 3, 4} \<longrightarrow> z_label (zone_at df p) = ''Unknown'')"
  by (simp add: zone_at_def Let_def priority_label_def count_div_pos conj_commute)

text \<open>
  C8 on a column with a missing value. The priority classes of \<open>ex_zones\<close> are 3, NaN
  and 1, in this order. Every comparison with NaN is false, so the sort finds nothing
  out of order and leaves the list as it is; the loop skips the NaN and prints the line
  of class 3 before the line of class 1.
\<close>

theorem zones_not_ascending:
  "map priority_class ex_zones = [Some 3, None, Some 1]
   \<and> py_sorted prio_lt (unique (map priority_class ex_zones)) = [Some 3, None, Some 1]
   \<and> zone_priorities ex_zones = [3, 1]
   \<and> map z_label (zone_validation ex_zones) = [''WATCH'', ''CRITICAL'']
   \<and> (\<forall>policy. \<exists>rep. run policy ex_zones = Inr rep
         \<and> map z_label (r_zones rep) = [''WATCH'', ''CRITICAL''])"
proof -
  let ?shown = "\<lambda>policy. case run policy ex_zones of
      Inl e \<Rightarrow> False
    | Inr rep \<Rightarrow> map z_label (r_zones rep) = [''WATCH'', ''CRITICAL'']"
  have "?shown Raise_error" by code_simp
  moreover have "?shown Return_nan" by code_simp
  ultimately have shown: "?shown policy" for policy by (cases policy) simp_all
  have "\<exists>rep. run policy ex_zones = Inr rep
         \<and> map z_label (r_zones rep) = [''WATCH'', ''CRITICAL'']" for policy
    using shown [of policy] by (cases "run policy ex_zones") simp_all
  moreover have "map priority_class ex_zones = [Some 3, None, Some 1]
   \<and> py_sorted prio_lt (unique (map priority_class ex_zones)) = [Some 3, None, Some 1]
   \<and> zone_priorities ex_zones = [3, 1]
   \<and> map z_label (zone_validation ex_zones) = [''WATCH'', ''CRITICAL'']"
    by code_simp
  ultimately show ?thesis by blast
qed

section \<open>The optimal threshold\<close>































end
